theory Spec2Isabelle
  imports Main "HOL-Library.AList"
begin

section \<open>The signaling relay: data model\<close>

text \<open>
  The relay is the Go program of \<^verbatim>\<open>src/unnamed/part_000\<close>. Pointers are addresses
  (natural numbers): a \<^verbatim>\<open>*websocket.Conn\<close> is a connection handle, a \<^verbatim>\<open>*Room\<close> is an
  address into the store \<open>heap\<close>. A Go map is an association list with
  \<open>AList.update\<close> for \<^verbatim>\<open>m[k] = v\<close>, \<open>AList.delete\<close> for \<^verbatim>\<open>delete(m, k)\<close>,
  \<open>map_of\<close> for the lookup and \<open>length\<close> for \<^verbatim>\<open>len(m)\<close>; the order of the list stands
  for the (unspecified) iteration order of the Go map. The HTTP handlers and the
  iterations of the read loops run one at a time, so the two mutexes are not modelled.
\<close>

record Client =
  Conn :: nat
  ID :: string
  RoomID :: string
  Username :: string

record Room =
  Clients :: "(string \<times> Client) list"

text \<open>The wire envelope. The fields \<^verbatim>\<open>RoomID\<close> and \<^verbatim>\<open>Username\<close> of the Go struct
  \<^verbatim>\<open>Message\<close> carry the suffix \<open>_msg\<close>, the names being taken by \<open>Client\<close>.\<close>

record Message =
  Type :: string
  From :: string
  To :: string
  RoomID_msg :: string
  Username_msg :: string
  SDP :: string
  Candidate :: string

text \<open>
  The process state: the global \<^verbatim>\<open>rooms\<close> map, the store of \<^verbatim>\<open>Room\<close> objects with its
  allocation counter, the counter of connection handles, the running
  \<^verbatim>\<open>handleMessages(client, room)\<close> goroutines, the connections on which \<^verbatim>\<open>Close\<close> was
  called, and the frames written so far (connection handle and payload, oldest first).
\<close>

record server =
  rooms :: "(string \<times> nat) list"
  heap :: "nat \<Rightarrow> Room"
  nextRoom :: nat
  nextConn :: nat
  goroutines :: "(Client \<times> nat) list"
  closedConns :: "nat set"
  sent :: "(nat \<times> string) list"

definition init :: server where
  "init = \<lparr>rooms = [], heap = (\<lambda>_. \<lparr>Clients = []\<rparr>), nextRoom = 0, nextConn = 0,
           goroutines = [], closedConns = {}, sent = []\<rparr>"

text \<open>\<^verbatim>\<open>encoding/json\<close> is a library: \<^verbatim>\<open>json.Marshal\<close> and \<^verbatim>\<open>json.Unmarshal\<close> on
  \<^verbatim>\<open>Message\<close> are parameters of the model, \<open>None\<close> being the error return.\<close>

type_synonym marshal = "Message \<Rightarrow> string option"
type_synonym unmarshal = "string \<Rightarrow> Message option"

text \<open>An HTTP request: its method, its query string as key/value pairs in order, and
  whether \<^verbatim>\<open>upgrader.Upgrade\<close> succeeds on it (decided by the handshake headers).\<close>

record request =
  Method :: string
  Query :: "(string \<times> string) list"
  Handshake :: bool

datatype response =
    HttpError nat string
  | RoomCreated string
  | RoomList "string list"
  | UpgradeFailed
  | Upgraded

text \<open>What \<^verbatim>\<open>client.Conn.ReadMessage()\<close> returns: an error, or a message type with a
  payload.\<close>

datatype read_result = ReadError | Frame nat string

definition TextMessage :: nat where
  "TextMessage = 1"

section \<open>Room identifiers\<close>

definition charset :: string where
  "charset = ''abcdefghijklmnopqrstuvwxyzABCDEFGHIJKLMNOPQRSTUVWXYZ0123456789''"

definition randomString :: "nat \<Rightarrow> string" where
  "randomString n = map (\<lambda>i. charset ! (i mod length charset)) [0..<n]"

definition generateRoomID :: string where
  "generateRoomID = ''room-'' @ randomString 8"

section \<open>Delivery\<close>

text \<open>\<^verbatim>\<open>Conn.WriteMessage\<close>: the frame is written unless the connection was closed, in
  which case the call returns an error, which every caller only logs. A frame counts as
  delivered to a connection when it is written to it; a failure of the network under a
  connection that was not closed is outside the model.\<close>

definition WriteMessage :: "server \<Rightarrow> nat \<Rightarrow> string \<Rightarrow> server" where
  "WriteMessage s conn msgBytes =
     (if conn \<in> closedConns s then s else s\<lparr>sent := sent s @ [(conn, msgBytes)]\<rparr>)"

definition forwardMessage :: "marshal \<Rightarrow> server \<Rightarrow> Message \<Rightarrow> server" where
  "forwardMessage mar s msg =
     (case map_of (rooms s) (RoomID_msg msg) of
        None \<Rightarrow> s
      | Some room \<Rightarrow>
          (case map_of (Clients (heap s room)) (To msg) of
             None \<Rightarrow> s
           | Some targetClient \<Rightarrow>
               (case mar msg of
                  None \<Rightarrow> s
                | Some msgBytes \<Rightarrow> WriteMessage s (Conn targetClient) msgBytes)))"

definition broadcastToRoom :: "marshal \<Rightarrow> server \<Rightarrow> string \<Rightarrow> Message \<Rightarrow> server" where
  "broadcastToRoom mar s roomID msg =
     (case map_of (rooms s) roomID of
        None \<Rightarrow> s
      | Some room \<Rightarrow>
          (case mar msg of
             None \<Rightarrow> s
           | Some msgBytes \<Rightarrow>
               fold (\<lambda>client s'.
                       if ID client = From msg then s'
                       else WriteMessage s' (Conn client) msgBytes)
                    (map snd (Clients (heap s room))) s))"

definition notifyRoom :: "marshal \<Rightarrow> server \<Rightarrow> string \<Rightarrow> string \<Rightarrow> string \<Rightarrow> string \<Rightarrow> server" where
  "notifyRoom mar s roomID clientID eventType username =
     broadcastToRoom mar s roomID
       \<lparr>Type = eventType, From = clientID, To = [], RoomID_msg = roomID,
        Username_msg = username, SDP = [], Candidate = []\<rparr>"

section \<open>The HTTP handlers\<close>

text \<open>The statement \<^verbatim>\<open>rooms[roomID] = &Room{Clients: make(map[string]*Client)}\<close>, which
  both handlers execute: a new \<^verbatim>\<open>Room\<close> object is allocated and the registry entry is
  set to its address, replacing any entry already there.\<close>

definition installRoom :: "server \<Rightarrow> string \<Rightarrow> server" where
  "installRoom s roomID =
     s\<lparr>rooms := AList.update roomID (nextRoom s) (rooms s),
       heap := (heap s)(nextRoom s := \<lparr>Clients = []\<rparr>),
       nextRoom := Suc (nextRoom s)\<rparr>"

definition handleRooms :: "server \<Rightarrow> request \<Rightarrow> server \<times> response" where
  "handleRooms s r =
     (if Method r = ''POST'' then
        (let roomID = generateRoomID in (installRoom s roomID, RoomCreated roomID))
      else if Method r = ''GET'' then (s, RoomList (map fst (rooms s)))
      else (s, HttpError 405 ''Method not allowed''))"

text \<open>\<^verbatim>\<open>r.URL.Query().Get(key)\<close>: the first value of the key, the empty string when
  the key is missing.\<close>

definition Get :: "(string \<times> string) list \<Rightarrow> string \<Rightarrow> string" where
  "Get q key = (case map_of q key of None \<Rightarrow> [] | Some v \<Rightarrow> v)"

definition handleWebSocket :: "marshal \<Rightarrow> server \<Rightarrow> request \<Rightarrow> server \<times> response" where
  "handleWebSocket mar s r =
     (let roomID = Get (Query r) ''roomId'';
          clientID = Get (Query r) ''clientId'';
          username = Get (Query r) ''username''
      in if roomID = [] \<or> clientID = [] \<or> username = [] then
           (s, HttpError 400 ''Missing required parameters'')
         else
           let (s1, room) = (case map_of (rooms s) roomID of
                               None \<Rightarrow> (installRoom s roomID, nextRoom s)
                             | Some room \<Rightarrow> (s, room))
           in if \<not> Handshake r then (s1, UpgradeFailed)
              else
                let conn = nextConn s1;
                    client = \<lparr>Conn = conn, ID = clientID, RoomID = roomID,
                              Username = username\<rparr>;
                    s2 = s1\<lparr>nextConn := Suc conn,
                            heap := (heap s1)(room := (heap s1 room)
                              \<lparr>Clients := AList.update clientID client
                                 (Clients (heap s1 room))\<rparr>)\<rparr>;
                    s3 = notifyRoom mar s2 roomID clientID ''join'' username
                in (s3\<lparr>goroutines := goroutines s3 @ [(client, room)]\<rparr>, Upgraded))"

section \<open>The read loop of a connection\<close>

text \<open>The deferred function of \<^verbatim>\<open>handleMessages\<close>, after which the goroutine ends.\<close>

definition handleMessages_defer :: "marshal \<Rightarrow> server \<Rightarrow> Client \<Rightarrow> nat \<Rightarrow> server" where
  "handleMessages_defer mar s client room =
     (let s1 = s\<lparr>closedConns := insert (Conn client) (closedConns s)\<rparr>;
          s2 = s1\<lparr>heap := (heap s1)(room := (heap s1 room)
                  \<lparr>Clients := AList.delete (ID client) (Clients (heap s1 room))\<rparr>)\<rparr>;
          s3 = (if length (Clients (heap s2 room)) = 0
                then s2\<lparr>rooms := AList.delete (RoomID client) (rooms s2)\<rparr>
                else notifyRoom mar s2 (RoomID client) (ID client) ''leave'' (Username client))
      in s3\<lparr>goroutines := removeAll (client, room) (goroutines s3)\<rparr>)"

text \<open>One iteration of the loop on a frame that was read without error.\<close>

definition handleMessages_iter ::
    "unmarshal \<Rightarrow> marshal \<Rightarrow> server \<Rightarrow> Client \<Rightarrow> nat \<Rightarrow> string \<Rightarrow> server" where
  "handleMessages_iter unm mar s client messageType payload =
     (if messageType \<noteq> TextMessage then s
      else case unm payload of
             None \<Rightarrow> s
           | Some msg0 \<Rightarrow>
               let msg = msg0\<lparr>From := ID client, RoomID_msg := RoomID client\<rparr>
               in if Type msg = ''offer'' \<or> Type msg = ''answer''
                     \<or> Type msg = ''ice-candidate''
                  then (if To msg \<noteq> [] then forwardMessage mar s msg else s)
                  else if Type msg = ''chat''
                  then broadcastToRoom mar s (RoomID client) msg
                  else s)"

text \<open>The loop on the results of the successive reads. When the list is used up the
  goroutine is blocked in \<^verbatim>\<open>ReadMessage\<close>; the first read error leaves the loop and runs
  the deferred function.\<close>

fun handleMessages ::
    "unmarshal \<Rightarrow> marshal \<Rightarrow> server \<Rightarrow> Client \<Rightarrow> nat \<Rightarrow> read_result list \<Rightarrow> server" where
  "handleMessages unm mar s client room [] = s"
| "handleMessages unm mar s client room (ReadError # rs) =
     handleMessages_defer mar s client room"
| "handleMessages unm mar s client room (Frame messageType payload # rs) =
     handleMessages unm mar (handleMessages_iter unm mar s client messageType payload)
       client room rs"

section \<open>Runs of the server\<close>

text \<open>What happens to the process: a request to \<^verbatim>\<open>/api/rooms\<close>, a request to \<^verbatim>\<open>/ws\<close>,
  or the return of \<^verbatim>\<open>ReadMessage\<close> in the goroutine of a connection.\<close>

datatype event =
    ApiRooms request
  | Ws request
  | Read nat read_result

definition step :: "unmarshal \<Rightarrow> marshal \<Rightarrow> server \<Rightarrow> event \<Rightarrow> server" where
  "step unm mar s e =
     (case e of
        ApiRooms r \<Rightarrow> fst (handleRooms s r)
      | Ws r \<Rightarrow> fst (handleWebSocket mar s r)
      | Read conn res \<Rightarrow>
          (case find (\<lambda>g. Conn (fst g) = conn) (goroutines s) of
             None \<Rightarrow> s
           | Some g \<Rightarrow> handleMessages unm mar s (fst g) (snd g) [res]))"

fun run :: "unmarshal \<Rightarrow> marshal \<Rightarrow> server \<Rightarrow> event list \<Rightarrow> server" where
  "run unm mar s [] = s"
| "run unm mar s (e # es) = run unm mar (step unm mar s e) es"

section \<open>Auxiliary definitions\<close>

text \<open>The frames that \<open>broadcastToRoom\<close> and \<open>forwardMessage\<close> write, as lists.\<close>

definition broadcastWrites :: "marshal \<Rightarrow> server \<Rightarrow> string \<Rightarrow> Message \<Rightarrow> (nat \<times> string) list" where
  "broadcastWrites mar s roomID msg =
     (case map_of (rooms s) roomID of
        None \<Rightarrow> []
      | Some room \<Rightarrow>
          (case mar msg of
             None \<Rightarrow> []
           | Some msgBytes \<Rightarrow>
               map (\<lambda>c. (Conn c, msgBytes))
                 (filter (\<lambda>c. ID c \<noteq> From msg \<and> Conn c \<notin> closedConns s)
                    (map snd (Clients (heap s room))))))"

definition forwardWrites :: "marshal \<Rightarrow> server \<Rightarrow> Message \<Rightarrow> (nat \<times> string) list" where
  "forwardWrites mar s msg =
     (case map_of (rooms s) (RoomID_msg msg) of
        None \<Rightarrow> []
      | Some room \<Rightarrow>
          (case map_of (Clients (heap s room)) (To msg) of
             None \<Rightarrow> []
           | Some targetClient \<Rightarrow>
               (case mar msg of
                  None \<Rightarrow> []
                | Some msgBytes \<Rightarrow>
                    if Conn targetClient \<in> closedConns s then []
                    else [(Conn targetClient, msgBytes)])))"

text \<open>
  Well-formedness of a state, kept by every step:
  \<^item> the goroutines have distinct, allocated, open connections, allocated rooms and
    non-empty client identifiers, and only allocated connections are closed;
  \<^item> every entry of every \<^verbatim>\<open>Room\<close> object is stored under the identifier of its
    client, whose goroutine runs on that very object, and the keys are distinct;
  \<^item> the registry holds allocated addresses under distinct non-empty identifiers, no
    address under two identifiers, and
    the object of a goroutine is registered, if at all, under the goroutine's room
    identifier.
\<close>

definition conns_ok :: "server \<Rightarrow> bool" where
  "conns_ok s \<longleftrightarrow>
     distinct (map (\<lambda>g. Conn (fst g)) (goroutines s)) \<and>
     (\<forall>c \<in> closedConns s. c < nextConn s) \<and>
     (\<forall>g \<in> set (goroutines s).
        Conn (fst g) < nextConn s \<and> Conn (fst g) \<notin> closedConns s \<and> snd g < nextRoom s \<and>
        ID (fst g) \<noteq> [])"

definition members_ok :: "server \<Rightarrow> bool" where
  "members_ok s \<longleftrightarrow>
     (\<forall>a. distinct (map fst (Clients (heap s a))) \<and>
          (\<forall>e \<in> set (Clients (heap s a)).
             fst e = ID (snd e) \<and> (snd e, a) \<in> set (goroutines s)))"

definition registry_ok :: "server \<Rightarrow> bool" where
  "registry_ok s \<longleftrightarrow>
     distinct (map fst (rooms s)) \<and>
     (\<forall>R a. map_of (rooms s) R = Some a \<longrightarrow> a < nextRoom s \<and> R \<noteq> []) \<and>
     (\<forall>R R' a. map_of (rooms s) R = Some a \<longrightarrow> map_of (rooms s) R' = Some a \<longrightarrow> R = R') \<and>
     (\<forall>g \<in> set (goroutines s). \<forall>R. map_of (rooms s) R = Some (snd g) \<longrightarrow> R = RoomID (fst g))"

definition wf :: "server \<Rightarrow> bool" where
  "wf s \<longleftrightarrow> conns_ok s \<and> members_ok s \<and> registry_ok s"

text \<open>The clients of the room that the registry holds under an identifier, none when
  the identifier is not registered.\<close>

definition members :: "server \<Rightarrow> string \<Rightarrow> Client list" where
  "members s R =
     (case map_of (rooms s) R of None \<Rightarrow> [] | Some room \<Rightarrow> map snd (Clients (heap s room)))"

text \<open>The identifiers under which the registry holds a room without any member.\<close>

definition emptyRooms :: "server \<Rightarrow> string list" where
  "emptyRooms s = map fst (filter (\<lambda>e. Clients (heap s (snd e)) = []) (rooms s))"



text \<open>The state after the registration of a new client in a registered room.\<close>

definition addClient :: "server \<Rightarrow> nat \<Rightarrow> Client \<Rightarrow> server" where
  "addClient s room client =
     s\<lparr>nextConn := Suc (nextConn s),
       heap := (heap s)(room := (heap s room)
                 \<lparr>Clients := AList.update (ID client) client (Clients (heap s room))\<rparr>),
       goroutines := goroutines s @ [(client, room)]\<rparr>"

text \<open>The state changes of the deferred function, the notification apart.\<close>

definition dropClient :: "server \<Rightarrow> Client \<Rightarrow> nat \<Rightarrow> server" where
  "dropClient s client room =
     s\<lparr>closedConns := insert (Conn client) (closedConns s),
       heap := (heap s)(room := (heap s room)
                 \<lparr>Clients := AList.delete (ID client) (Clients (heap s room))\<rparr>),
       goroutines := removeAll (client, room) (goroutines s)\<rparr>"

section \<open>Example inputs\<close>

text \<open>A codec for the examples: the encoding lists the type, the sender, the target
  and the room of a message; the payloads \<open>chat\<close> and \<open>offer:B\<close> decode to a chat
  message and to an offer for \<open>B\<close>, both claiming to come from \<open>mallory\<close> in room
  \<open>elsewhere\<close>, the payload \<open>chat.\<close> to a chat message that names no sender and
  no room, and nothing else decodes.\<close>

definition ex_marshal :: marshal where
  "ex_marshal m = Some (Type m @ '' from='' @ From m @ '' to='' @ To m @ '' room='' @ RoomID_msg m)"

definition ex_unmarshal :: unmarshal where
  "ex_unmarshal p =
     (if p = ''chat'' then
        Some \<lparr>Type = ''chat'', From = ''mallory'', To = [], RoomID_msg = ''elsewhere'',
              Username_msg = [], SDP = [], Candidate = []\<rparr>
      else if p = ''chat.'' then
        Some \<lparr>Type = ''chat'', From = [], To = [], RoomID_msg = [],
              Username_msg = [], SDP = [], Candidate = []\<rparr>
      else if take 6 p = ''offer:'' then
        Some \<lparr>Type = ''offer'', From = ''mallory'', To = drop 6 p, RoomID_msg = ''elsewhere'',
              Username_msg = [], SDP = ''v=0'', Candidate = []\<rparr>
      else None)"

definition POST_rooms :: request where
  "POST_rooms = \<lparr>Method = ''POST'', Query = [], Handshake = False\<rparr>"

definition join :: "string \<Rightarrow> string \<Rightarrow> request" where
  "join roomID clientID =
     \<lparr>Method = ''GET'',
      Query = [(''roomId'', roomID), (''clientId'', clientID), (''username'', ''user-'' @ clientID)],
      Handshake = True\<rparr>"

text \<open>Three clients \<open>a\<close>, \<open>b\<close>, \<open>c\<close> that joined room \<open>R\<close> in this order.\<close>

definition ex_client :: "string \<Rightarrow> nat \<Rightarrow> Client" where
  "ex_client c n = \<lparr>Conn = n, ID = c, RoomID = ''R'', Username = ''user-'' @ c\<rparr>"

definition ex_room :: server where
  "ex_room = run ex_unmarshal ex_marshal init
     [Ws (join ''R'' ''a''), Ws (join ''R'' ''b''), Ws (join ''R'' ''c'')]"

text \<open>A run in which a client identifier is reused: \<open>x\<close> joins room \<open>R\<close> twice
  (connections 0 and 1), connection 0 is lost, then \<open>y\<close> and \<open>z\<close> join \<open>R\<close>
  (connections 2 and 3).\<close>

definition ex_stale :: "event list" where
  "ex_stale = [Ws (join ''R'' ''x''), Ws (join ''R'' ''x''), Read 0 ReadError,
               Ws (join ''R'' ''y''), Ws (join ''R'' ''z'')]"

text \<open>The state after that run and the loss of connection 1.\<close>

definition ex_orphan :: server where
  "ex_orphan = run ex_unmarshal ex_marshal init (ex_stale @ [Read 1 ReadError])"

section \<open>Basic facts\<close>

lemma generateRoomID_value: "generateRoomID = ''room-abcdefgh''"
  by code_simp

lemma update_entry:
  assumes "distinct (map fst al)" and "e \<in> set (AList.update k v al)"
  shows "e = (k, v) \<or> (e \<in> set al \<and> fst e \<noteq> k)"
  using assms by (induction al) (auto split: if_splits simp: rev_image_eqI)

lemma delete_entry:
  "e \<in> set (AList.delete k al) \<longleftrightarrow> e \<in> set al \<and> fst e \<noteq> k"
  by (auto simp: AList.delete_eq)

lemma fold_WriteMessage:
  "fold (\<lambda>client s'. if P client then s' else WriteMessage s' (Conn client) b) cs s =
     s\<lparr>sent := sent s @ map (\<lambda>c. (Conn c, b))
                          (filter (\<lambda>c. \<not> P c \<and> Conn c \<notin> closedConns s) cs)\<rparr>"
  by (induction cs arbitrary: s) (simp_all add: WriteMessage_def)

lemma broadcastToRoom_sent:
  "broadcastToRoom mar s roomID msg = s\<lparr>sent := sent s @ broadcastWrites mar s roomID msg\<rparr>"
  by (simp add: broadcastToRoom_def broadcastWrites_def fold_WriteMessage split: option.splits)

lemma forwardMessage_sent:
  "forwardMessage mar s msg = s\<lparr>sent := sent s @ forwardWrites mar s msg\<rparr>"
  by (simp add: forwardMessage_def forwardWrites_def WriteMessage_def split: option.splits)

lemma handleMessages_iter_sent:
  "\<exists>ws. handleMessages_iter unm mar s client t p = s\<lparr>sent := sent s @ ws\<rparr>"
  unfolding handleMessages_iter_def Let_def
  by (auto simp: forwardMessage_sent broadcastToRoom_sent split: option.splits
           intro: exI[of _ "[]"])

lemma handleMessages_frames_sent:
  "ReadError \<notin> set rs \<Longrightarrow>
     \<exists>ws. handleMessages unm mar s client room rs = s\<lparr>sent := sent s @ ws\<rparr>"
proof (induction rs arbitrary: s)
  case Nil
  show ?case by (auto intro: exI[of _ "[]"])
next
  case (Cons r rs)
  then obtain t p where r: "r = Frame t p" by (cases r) auto
  obtain ws where ws: "handleMessages_iter unm mar s client t p = s\<lparr>sent := sent s @ ws\<rparr>"
    using handleMessages_iter_sent by blast
  from Cons obtain ws' where
    "handleMessages unm mar (s\<lparr>sent := sent s @ ws\<rparr>) client room rs =
       s\<lparr>sent := sent s @ ws\<rparr>\<lparr>sent := sent (s\<lparr>sent := sent s @ ws\<rparr>) @ ws'\<rparr>"
    by fastforce
  then show ?case by (auto simp: r ws intro: exI[of _ "ws @ ws'"])
qed

section \<open>Well-formedness is invariant\<close>

lemma wf_cong:
  "rooms s' = rooms s \<Longrightarrow> heap s' = heap s \<Longrightarrow> nextRoom s' = nextRoom s \<Longrightarrow>
   nextConn s' = nextConn s \<Longrightarrow> goroutines s' = goroutines s \<Longrightarrow>
   closedConns s' = closedConns s \<Longrightarrow> wf s' = wf s"
  by (simp add: wf_def conns_ok_def members_ok_def registry_ok_def)

lemma wf_init: "wf init"
  by (simp add: wf_def conns_ok_def members_ok_def registry_ok_def init_def)

lemma conns_ok_installRoom: "conns_ok s \<Longrightarrow> conns_ok (installRoom s R)"
  by (auto simp: conns_ok_def installRoom_def)

lemma members_ok_installRoom: "members_ok s \<Longrightarrow> members_ok (installRoom s R)"
  by (auto simp: members_ok_def installRoom_def)

lemma registry_ok_installRoom:
  assumes "conns_ok s" and "registry_ok s" and "R \<noteq> []"
  shows "registry_ok (installRoom s R)"
proof -
  have fresh: "map_of (rooms s) R' \<noteq> Some (nextRoom s)" for R'
  proof
    assume "map_of (rooms s) R' = Some (nextRoom s)"
    with assms(2) have "nextRoom s < nextRoom s"
      unfolding registry_ok_def by blast
    then show False by simp
  qed
  have old: "snd g \<noteq> nextRoom s" if "g \<in> set (goroutines s)" for g
    using assms(1) that by (auto simp: conns_ok_def)
  show ?thesis
    using assms(2,3) fresh old
    unfolding registry_ok_def installRoom_def
    by (simp add: update_conv' less_Suc_eq distinct_update) metis
qed

lemma wf_installRoom: "wf s \<Longrightarrow> R \<noteq> [] \<Longrightarrow> wf (installRoom s R)"
  by (simp add: wf_def conns_ok_installRoom members_ok_installRoom registry_ok_installRoom)

lemma conns_ok_addClient:
  assumes "conns_ok s" "room < nextRoom s" "Conn client = nextConn s" "ID client \<noteq> []"
  shows "conns_ok (addClient s room client)"
  using assms unfolding conns_ok_def addClient_def
  by (auto simp: less_Suc_eq)

lemma members_ok_addClient:
  assumes "members_ok s"
  shows "members_ok (addClient s room client)"
  unfolding members_ok_def
proof (intro allI conjI ballI)
  fix a
  show "distinct (map fst (Clients (heap (addClient s room client) a)))"
    using assms by (simp add: members_ok_def addClient_def distinct_update)
next
  fix a e
  assume e: "e \<in> set (Clients (heap (addClient s room client) a))"
  have d: "distinct (map fst (Clients (heap s room)))"
    using assms by (simp add: members_ok_def)
  have "e = (ID client, client) \<and> a = room \<or> e \<in> set (Clients (heap s a))"
    using e update_entry [OF d, of e "ID client" client]
    by (auto simp: addClient_def split: if_splits)
  then show "fst e = ID (snd e)" and "(snd e, a) \<in> set (goroutines (addClient s room client))"
    using assms by (auto simp: members_ok_def addClient_def)
qed

lemma registry_ok_addClient:
  assumes "registry_ok s" "map_of (rooms s) (RoomID client) = Some room"
  shows "registry_ok (addClient s room client)"
  using assms unfolding registry_ok_def addClient_def
  by auto

lemma wf_addClient:
  assumes "wf s" "map_of (rooms s) (RoomID client) = Some room" "Conn client = nextConn s"
    "ID client \<noteq> []"
  shows "wf (addClient s room client)"
proof -
  have "room < nextRoom s"
    using assms(1,2) by (auto simp: wf_def registry_ok_def)
  then show ?thesis
    using assms
    by (simp add: wf_def conns_ok_addClient members_ok_addClient registry_ok_addClient)
qed

text \<open>The path of \<open>handleWebSocket\<close> past the parameter check and the handshake.\<close>

lemma handleWebSocket_join:
  fixes s :: server and r :: request and mar :: marshal
  assumes "Get (Query r) ''roomId'' \<noteq> []" "Get (Query r) ''clientId'' \<noteq> []"
    "Get (Query r) ''username'' \<noteq> []" "Handshake r"
  defines "roomID \<equiv> Get (Query r) ''roomId''"
  defines "s1 \<equiv> (case map_of (rooms s) roomID of None \<Rightarrow> installRoom s roomID | Some _ \<Rightarrow> s)"
  defines "room \<equiv> (case map_of (rooms s) roomID of None \<Rightarrow> nextRoom s | Some a \<Rightarrow> a)"
  defines "client \<equiv> \<lparr>Conn = nextConn s, ID = Get (Query r) ''clientId'', RoomID = roomID,
                      Username = Get (Query r) ''username''\<rparr>"
  defines "s2 \<equiv> addClient s1 room client"
  shows "handleWebSocket mar s r =
           (s2\<lparr>sent := sent s @ broadcastWrites mar s2 roomID
                  \<lparr>Type = ''join'', From = ID client, To = [], RoomID_msg = roomID,
                   Username_msg = Username client, SDP = [], Candidate = []\<rparr>\<rparr>, Upgraded)"
    and "map_of (rooms s1) roomID = Some room"
    and "nextConn s1 = nextConn s"
  using assms(1-4)
  unfolding handleWebSocket_def roomID_def s1_def room_def client_def s2_def
  by (auto simp: Let_def notifyRoom_def broadcastToRoom_sent broadcastWrites_def addClient_def
      installRoom_def update_conv' split: option.splits)


lemma broadcastWrites_cong:
  "rooms s' = rooms s \<Longrightarrow> heap s' = heap s \<Longrightarrow> closedConns s' = closedConns s \<Longrightarrow>
   broadcastWrites mar s' roomID msg = broadcastWrites mar s roomID msg"
  by (simp add: broadcastWrites_def split: option.splits)

lemma handleMessages_defer_eq:
  "handleMessages_defer mar s client room =
     (let s2 = dropClient s client room in
      if Clients (heap s2 room) = []
      then s2\<lparr>rooms := AList.delete (RoomID client) (rooms s)\<rparr>
      else s2\<lparr>sent := sent s @ broadcastWrites mar s2 (RoomID client)
                  \<lparr>Type = ''leave'', From = ID client, To = [], RoomID_msg = RoomID client,
                   Username_msg = Username client, SDP = [], Candidate = []\<rparr>\<rparr>)"
proof -
  define s2 where "s2 = s\<lparr>closedConns := insert (Conn client) (closedConns s),
       heap := (heap s)(room := (heap s room)
                 \<lparr>Clients := AList.delete (ID client) (Clients (heap s room))\<rparr>)\<rparr>"
  have d: "dropClient s client room = s2\<lparr>goroutines := removeAll (client, room) (goroutines s)\<rparr>"
    by (simp add: dropClient_def s2_def)
  have w: "broadcastWrites mar (dropClient s client room) R m = broadcastWrites mar s2 R m" for R m
    by (rule broadcastWrites_cong) (simp_all add: d)
  have "handleMessages_defer mar s client room =
      (let s3 = (if length (Clients (heap s2 room)) = 0
                then s2\<lparr>rooms := AList.delete (RoomID client) (rooms s2)\<rparr>
                else notifyRoom mar s2 (RoomID client) (ID client) ''leave'' (Username client))
       in s3\<lparr>goroutines := removeAll (client, room) (goroutines s3)\<rparr>)"
    by (simp add: handleMessages_defer_def s2_def Let_def)
  also have "\<dots> = (let s2' = dropClient s client room in
      if Clients (heap s2' room) = []
      then s2'\<lparr>rooms := AList.delete (RoomID client) (rooms s)\<rparr>
      else s2'\<lparr>sent := sent s @ broadcastWrites mar s2' (RoomID client)
                  \<lparr>Type = ''leave'', From = ID client, To = [], RoomID_msg = RoomID client,
                   Username_msg = Username client, SDP = [], Candidate = []\<rparr>\<rparr>)"
    unfolding Let_def w
    by (simp add: d notifyRoom_def broadcastToRoom_sent) (simp add: s2_def)
  finally show ?thesis .
qed

lemma distinct_map_eq:
  "distinct (map f xs) \<Longrightarrow> x \<in> set xs \<Longrightarrow> y \<in> set xs \<Longrightarrow> f x = f y \<Longrightarrow> x = y"
  by (meson distinct_map inj_onD)

lemma conns_ok_dropClient:
  assumes "conns_ok s" "(client, room) \<in> set (goroutines s)"
  shows "conns_ok (dropClient s client room)"
proof -
  have "Conn (fst g) \<noteq> Conn client"
    if "g \<in> set (goroutines s)" "g \<noteq> (client, room)" for g
    using distinct_map_eq [of "\<lambda>g. Conn (fst g)" "goroutines s" g "(client, room)"] assms that
    by (auto simp: conns_ok_def)
  then show ?thesis
    using assms unfolding conns_ok_def dropClient_def
    by (auto simp: distinct_map_filter removeAll_filter_not_eq)
qed

lemma members_ok_dropClient:
  assumes "members_ok s"
  shows "members_ok (dropClient s client room)"
  unfolding members_ok_def
proof (intro allI conjI ballI)
  fix a
  show "distinct (map fst (Clients (heap (dropClient s client room) a)))"
    using assms by (simp add: members_ok_def dropClient_def distinct_delete)
next
  fix a e
  assume "e \<in> set (Clients (heap (dropClient s client room) a))"
  then have e: "e \<in> set (Clients (heap s a))" and k: "a = room \<longrightarrow> fst e \<noteq> ID client"
    by (auto simp: dropClient_def delete_entry split: if_splits)
  from e assms have m: "fst e = ID (snd e)" "(snd e, a) \<in> set (goroutines s)"
    by (auto simp: members_ok_def)
  show "fst e = ID (snd e)" by fact
  from k m show "(snd e, a) \<in> set (goroutines (dropClient s client room))"
    by (auto simp: dropClient_def)
qed

lemma registry_ok_dropClient:
  assumes "registry_ok s"
  shows "registry_ok (dropClient s client room)"
  using assms unfolding registry_ok_def dropClient_def
  by auto

lemma registry_ok_delete:
  assumes "registry_ok s"
  shows "registry_ok (s\<lparr>rooms := AList.delete R (rooms s)\<rparr>)"
  using assms unfolding registry_ok_def
  by (auto simp: delete_conv' distinct_delete split: if_splits)

lemma wf_dropClient:
  "wf s \<Longrightarrow> (client, room) \<in> set (goroutines s) \<Longrightarrow> wf (dropClient s client room)"
  by (simp add: wf_def conns_ok_dropClient members_ok_dropClient registry_ok_dropClient)

lemma wf_delete:
  "wf s \<Longrightarrow> wf (s\<lparr>rooms := AList.delete R (rooms s)\<rparr>)"
  using registry_ok_delete [of s R]
  by (simp add: wf_def conns_ok_def members_ok_def)

lemma wf_sent: "wf (s\<lparr>sent := x\<rparr>) = wf s"
  by (rule wf_cong) simp_all

lemma wf_handleMessages_defer:
  assumes "wf s" "(client, room) \<in> set (goroutines s)"
  shows "wf (handleMessages_defer mar s client room)"
proof -
  have "rooms (dropClient s client room) = rooms s"
    by (simp add: dropClient_def)
  then show ?thesis
    using wf_dropClient [OF assms] wf_delete [of "dropClient s client room" "RoomID client"]
    by (simp add: handleMessages_defer_eq Let_def wf_sent)
qed

lemma wf_handleWebSocket:
  assumes "wf s"
  shows "wf (fst (handleWebSocket mar s r))"
proof (cases "Get (Query r) ''roomId'' \<noteq> [] \<and> Get (Query r) ''clientId'' \<noteq> []
    \<and> Get (Query r) ''username'' \<noteq> []")
  case False
  then show ?thesis
    using assms by (auto simp: handleWebSocket_def Let_def)
next
  case valid: True
  define s1 where "s1 = (case map_of (rooms s) (Get (Query r) ''roomId'') of
      None \<Rightarrow> installRoom s (Get (Query r) ''roomId'') | Some _ \<Rightarrow> s)"
  have s1: "wf s1"
    using assms valid by (simp add: s1_def wf_installRoom split: option.splits)
  show ?thesis
  proof (cases "Handshake r")
    case False
    with valid have "fst (handleWebSocket mar s r) = s1"
      by (auto simp: handleWebSocket_def Let_def s1_def split: option.splits)
    with s1 show ?thesis by simp
  next
    case True
    note j = handleWebSocket_join(1) [where s = s and r = r and mar = mar, OF _ _ _ True]
      handleWebSocket_join(2,3) [where s = s and r = r, OF _ _ _ True]
    from valid show ?thesis
      using wf_addClient [OF s1 [unfolded s1_def]] j
      by (simp add: wf_sent s1_def)
  qed
qed

lemma wf_handleRooms: "wf s \<Longrightarrow> wf (fst (handleRooms s r))"
  by (simp add: handleRooms_def Let_def wf_installRoom generateRoomID_value)

lemma find_goroutine:
  "find (\<lambda>g. Conn (fst g) = conn) (goroutines s) = Some g \<Longrightarrow> g \<in> set (goroutines s)"
  by (auto simp: find_Some_iff)

lemma wf_step: 
  assumes "wf s"
  shows "wf (step unm mar s e)"
proof (cases e)
  case (ApiRooms r)
  then show ?thesis using assms by (simp add: step_def wf_handleRooms)
next
  case (Ws r)
  then show ?thesis using assms by (simp add: step_def wf_handleWebSocket)
next
  case (Read conn res)
  show ?thesis
  proof (cases "find (\<lambda>g. Conn (fst g) = conn) (goroutines s)")
    case None
    with Read assms show ?thesis by (simp add: step_def)
  next
    case (Some g)
    then have g: "(fst g, snd g) \<in> set (goroutines s)"
      using find_goroutine by fastforce
    show ?thesis
    proof (cases res)
      case ReadError
      with Read Some show ?thesis
        using wf_handleMessages_defer [OF assms g] by (simp add: step_def)
    next
      case (Frame t p)
      obtain ws where "handleMessages_iter unm mar s (fst g) t p = s\<lparr>sent := sent s @ ws\<rparr>"
        using handleMessages_iter_sent by blast
      with Read Some Frame assms show ?thesis
        by (simp add: step_def wf_sent)
    qed
  qed
qed

lemma wf_run: "wf s \<Longrightarrow> wf (run unm mar s evs)"
  by (induction evs arbitrary: s) (simp_all add: wf_step)

lemma wf_reachable: "wf (run unm mar init evs)"
  by (simp add: wf_run wf_init)

section \<open>Room identifiers are not fresh\<close>

text \<open>
  C2. The claim is that every room creation returns a fresh identifier. The code
  returns the same identifier on every call: \<open>randomString\<close> takes the \<open>i\<close>-th
  character of the alphabet at position \<open>i\<close>, so two successive \<^verbatim>\<open>POST\<close>s, from any state,
  both answer \<open>room-abcdefgh\<close>, and the second one finds that identifier in the
  registry and replaces its room by a new empty one.
\<close>

theorem handleRooms_POST_repeats_roomId:
  "snd (handleRooms s POST_rooms) = RoomCreated ''room-abcdefgh'' \<and>
   snd (handleRooms (fst (handleRooms s POST_rooms)) POST_rooms) = RoomCreated ''room-abcdefgh'' \<and>
   map_of (rooms (fst (handleRooms s POST_rooms))) ''room-abcdefgh'' = Some (nextRoom s) \<and>
   map_of (rooms (fst (handleRooms (fst (handleRooms s POST_rooms)) POST_rooms))) ''room-abcdefgh''
     = Some (Suc (nextRoom s))"
  by (simp add: handleRooms_def POST_rooms_def installRoom_def generateRoomID_value update_conv' Let_def)

section \<open>Rejected upgrade requests\<close>

text \<open>
  C7. A request to \<^verbatim>\<open>/ws\<close> in which one of the query parameters \<open>roomId\<close>,
  \<open>clientId\<close>, \<open>username\<close> is missing or empty is answered with status 400, whatever
  the handshake would have given, and the state is the one before the request: no room
  is created, no connection is allocated, no goroutine is started, nothing is written.
\<close>

theorem handleWebSocket_missing_parameter:
  assumes "k \<in> {''roomId'', ''clientId'', ''username''}"
    and "map_of (Query r) k = None \<or> map_of (Query r) k = Some []"
  shows "handleWebSocket mar s r = (s, HttpError 400 ''Missing required parameters'')"
proof -
  from assms(2) have "Get (Query r) k = []"
    by (auto simp: Get_def)
  with assms(1) show ?thesis
    by (auto simp: handleWebSocket_def Let_def)
qed

theorem handleWebSocket_missing_parameter_witness:
  "handleWebSocket ex_marshal init
     \<lparr>Method = ''GET'', Query = [(''roomId'', ''R''), (''username'', ''u'')], Handshake = True\<rparr>
   = (init, HttpError 400 ''Missing required parameters'')"
  by (rule handleWebSocket_missing_parameter [of "''clientId''"]) simp_all

section \<open>Frames that are skipped\<close>

text \<open>
  C8. An inbound frame that is not a text frame, or whose payload does not decode,
  leaves the whole state unchanged (nothing is written, no room, registry entry or
  connection changes) and the loop goes on with the next read. A read error is what
  ends the loop: it runs the deferred function whatever reads would follow, and as long
  as no read fails the goroutine keeps running on its open connection, with the
  registry and the rooms as they were.
\<close>

theorem handleMessages_skips_frame:
  "(messageType \<noteq> TextMessage \<or> unm payload = None \<longrightarrow>
      handleMessages_iter unm mar s client messageType payload = s \<and>
      handleMessages unm mar s client room (Frame messageType payload # rs) =
        handleMessages unm mar s client room rs) \<and>
   handleMessages unm mar s client room (ReadError # rs) =
     handleMessages_defer mar s client room \<and>
   (ReadError \<notin> set rs \<longrightarrow>
      goroutines (handleMessages unm mar s client room rs) = goroutines s \<and>
      closedConns (handleMessages unm mar s client room rs) = closedConns s \<and>
      rooms (handleMessages unm mar s client room rs) = rooms s \<and>
      heap (handleMessages unm mar s client room rs) = heap s)"
proof (intro conjI impI)
  assume bad: "messageType \<noteq> TextMessage \<or> unm payload = None"
  then show skip: "handleMessages_iter unm mar s client messageType payload = s"
    by (auto simp: handleMessages_iter_def)
  then show "handleMessages unm mar s client room (Frame messageType payload # rs) =
      handleMessages unm mar s client room rs"
    by simp
next
  show "handleMessages unm mar s client room (ReadError # rs) =
      handleMessages_defer mar s client room"
    by simp
next
  assume "ReadError \<notin> set rs"
  then obtain ws where ws: "handleMessages unm mar s client room rs = s\<lparr>sent := sent s @ ws\<rparr>"
    using handleMessages_frames_sent by blast
  show "goroutines (handleMessages unm mar s client room rs) = goroutines s"
    and "closedConns (handleMessages unm mar s client room rs) = closedConns s"
    and "rooms (handleMessages unm mar s client room rs) = rooms s"
    and "heap (handleMessages unm mar s client room rs) = heap s"
    by (simp_all add: ws)
qed

theorem handleMessages_skips_frame_witness:
  "handleMessages_iter ex_unmarshal ex_marshal ex_room (ex_client ''a'' 0) 2 ''chat'' = ex_room \<and>
   handleMessages_iter ex_unmarshal ex_marshal ex_room (ex_client ''a'' 0) TextMessage ''{'' = ex_room \<and>
   handleMessages ex_unmarshal ex_marshal ex_room (ex_client ''a'' 0) 0
       [Frame 2 ''chat'', Frame TextMessage ''{'', Frame TextMessage ''chat''] =
     handleMessages ex_unmarshal ex_marshal ex_room (ex_client ''a'' 0) 0 [Frame TextMessage ''chat''] \<and>
   goroutines (handleMessages ex_unmarshal ex_marshal ex_room (ex_client ''a'' 0) 0
       [Frame 2 ''chat'', Frame TextMessage ''{'', Frame TextMessage ''chat'']) = goroutines ex_room \<and>
   closedConns (handleMessages ex_unmarshal ex_marshal ex_room (ex_client ''a'' 0) 0
       [Frame 2 ''chat'', Frame TextMessage ''{'', Frame TextMessage ''chat'']) = closedConns ex_room"
proof -
  note t = handleMessages_skips_frame [where unm = ex_unmarshal and mar = ex_marshal
      and s = ex_room and client = "ex_client ''a'' 0" and room = 0]
  have 1: "handleMessages_iter ex_unmarshal ex_marshal ex_room (ex_client ''a'' 0) 2 ''chat'' = ex_room"
    and 2: "handleMessages ex_unmarshal ex_marshal ex_room (ex_client ''a'' 0) 0
       [Frame 2 ''chat'', Frame TextMessage ''{'', Frame TextMessage ''chat''] =
     handleMessages ex_unmarshal ex_marshal ex_room (ex_client ''a'' 0) 0
       [Frame TextMessage ''{'', Frame TextMessage ''chat'']"
    using t [where messageType = 2 and payload = "''chat''"
        and rs = "[Frame TextMessage ''{'', Frame TextMessage ''chat'']"]
    by (simp_all add: TextMessage_def)
  have 3: "handleMessages_iter ex_unmarshal ex_marshal ex_room (ex_client ''a'' 0) TextMessage ''{'' = ex_room"
    and 4: "handleMessages ex_unmarshal ex_marshal ex_room (ex_client ''a'' 0) 0
       [Frame TextMessage ''{'', Frame TextMessage ''chat''] =
     handleMessages ex_unmarshal ex_marshal ex_room (ex_client ''a'' 0) 0 [Frame TextMessage ''chat'']"
    using t [where messageType = TextMessage and payload = "''{''"
        and rs = "[Frame TextMessage ''chat'']"]
    by (simp_all add: ex_unmarshal_def)
  have 5: "goroutines (handleMessages ex_unmarshal ex_marshal ex_room (ex_client ''a'' 0) 0
       [Frame 2 ''chat'', Frame TextMessage ''{'', Frame TextMessage ''chat'']) = goroutines ex_room"
    and 6: "closedConns (handleMessages ex_unmarshal ex_marshal ex_room (ex_client ''a'' 0) 0
       [Frame 2 ''chat'', Frame TextMessage ''{'', Frame TextMessage ''chat'']) = closedConns ex_room"
    using t [where rs = "[Frame 2 ''chat'', Frame TextMessage ''{'', Frame TextMessage ''chat'']"]
    by simp_all
  from 1 2 3 4 5 6 show ?thesis by simp
qed

section \<open>Members of a room in a well-formed state\<close>

lemma member_goroutine:
  assumes "wf s" "e \<in> set (Clients (heap s a))"
  shows "(snd e, a) \<in> set (goroutines s)" and "fst e = ID (snd e)"
  using assms by (auto simp: wf_def members_ok_def)

lemma member_open:
  assumes "wf s" "e \<in> set (Clients (heap s a))"
  shows "Conn (snd e) \<notin> closedConns s"
  using member_goroutine(1) [OF assms] assms(1) by (auto simp: wf_def conns_ok_def)

lemma member_conn_inj:
  assumes "wf s" "e \<in> set (Clients (heap s a))" "e' \<in> set (Clients (heap s a'))"
    "Conn (snd e) = Conn (snd e')"
  shows "e = e'" and "a = a'"
proof -
  have "distinct (map (\<lambda>g. Conn (fst g)) (goroutines s))"
    using assms(1) by (simp add: wf_def conns_ok_def)
  then have "(snd e, a) = (snd e', a')"
    using member_goroutine(1) [OF assms(1,2)] member_goroutine(1) [OF assms(1,3)] assms(4)
    by (auto dest: distinct_map_eq)
  then show "a = a'" and "e = e'"
    using member_goroutine(2) [OF assms(1,2)] member_goroutine(2) [OF assms(1,3)]
    by (auto intro: prod_eqI)
qed

lemma members_distinct_conns:
  assumes "wf s"
  shows "distinct (map Conn (map snd (Clients (heap s a))))"
proof -
  have "distinct (map fst (Clients (heap s a)))"
    using assms by (simp add: wf_def members_ok_def)
  then have "distinct (Clients (heap s a))"
    by (simp add: distinct_map)
  moreover have "inj_on (\<lambda>e. Conn (snd e)) (set (Clients (heap s a)))"
    using member_conn_inj(1) [OF assms] by (auto intro: inj_onI)
  ultimately show ?thesis
    by (simp add: distinct_map comp_def)
qed

lemma member_registered_room:
  assumes "wf s" "map_of (rooms s) R = Some a" "e \<in> set (Clients (heap s a))"
  shows "RoomID (snd e) = R"
  using member_goroutine(1) [OF assms(1,3)] assms(1,2)
  by (fastforce simp: wf_def registry_ok_def)


lemma members_sent: "members (s\<lparr>sent := x\<rparr>) R = members s R"
  by (simp add: members_def split: option.splits)

lemma broadcastWrites_wf:
  assumes "wf s" "mar msg = Some b"
  shows "broadcastWrites mar s R msg =
    map (\<lambda>c. (Conn c, b)) (filter (\<lambda>c. ID c \<noteq> From msg) (members s R))"
proof (cases "map_of (rooms s) R")
  case None
  then show ?thesis by (simp add: broadcastWrites_def members_def)
next
  case (Some room)
  have "filter (\<lambda>c. ID c \<noteq> From msg \<and> Conn c \<notin> closedConns s) (map snd (Clients (heap s room)))
      = filter (\<lambda>c. ID c \<noteq> From msg) (map snd (Clients (heap s room)))"
    using member_open [OF assms(1)] by (intro filter_cong) auto
  with Some assms(2) show ?thesis
    by (simp add: broadcastWrites_def members_def)
qed

lemma members_entry:
  assumes "A \<in> set (members s R)"
  obtains room k where "map_of (rooms s) R = Some room" "(k, A) \<in> set (Clients (heap s room))"
proof (cases "map_of (rooms s) R")
  case None
  with assms show ?thesis by (simp add: members_def)
next
  case (Some room)
  with assms obtain k where "(k, A) \<in> set (Clients (heap s room))"
    by (auto simp: members_def)
  with Some that show ?thesis by blast
qed

lemma member_same_ID:
  assumes "wf s" "A \<in> set (members s R)" "B \<in> set (members s R)" "ID B = ID A"
  shows "B = A"
proof -
  from assms(2) obtain room k where room: "map_of (rooms s) R = Some room"
    and eA: "(k, A) \<in> set (Clients (heap s room))"
    by (rule members_entry)
  from assms(3) room obtain k' where eB: "(k', B) \<in> set (Clients (heap s room))"
    by (auto simp: members_def)
  note e = eA eB
  then have "k = ID A" "k' = ID B"
    using member_goroutine(2) [OF assms(1)] by fastforce+
  moreover have "distinct (map fst (Clients (heap s room)))"
    using assms(1) by (simp add: wf_def members_ok_def)
  ultimately show ?thesis
    using e assms(4) by (auto dest: eq_key_imp_eq_value)
qed

lemma members_distinct:
  assumes "wf s"
  shows "distinct (map Conn (members s R))"
  using members_distinct_conns [OF assms] by (simp add: members_def split: option.splits)

lemma member_RoomID:
  assumes "wf s" "A \<in> set (members s R)"
  shows "RoomID A = R"
proof -
  from assms(2) obtain room k where "map_of (rooms s) R = Some room"
    "(k, A) \<in> set (Clients (heap s room))"
    by (rule members_entry)
  then show ?thesis
    using member_registered_room [OF assms(1), of R room "(k, A)"] by simp
qed

lemma chat_writes:
  assumes "wf s" "A \<in> set (members s R)"
    and "unm payload = Some m" "Type m = ''chat''"
    and "mar (m\<lparr>From := ID A, RoomID_msg := RoomID A\<rparr>) = Some b"
  shows "handleMessages_iter unm mar s A TextMessage payload =
     s\<lparr>sent := sent s @ map (\<lambda>B. (Conn B, b)) (filter (\<lambda>B. B \<noteq> A) (members s R))\<rparr>"
proof -
  have R: "RoomID A = R"
    using assms(1,2) by (rule member_RoomID)
  have "filter (\<lambda>B. ID B \<noteq> ID A) (members s R) = filter (\<lambda>B. B \<noteq> A) (members s R)"
    using member_same_ID [OF assms(1,2)] by (intro filter_cong) auto
  then show ?thesis
    using assms(3-5) broadcastWrites_wf [where mar = mar, OF assms(1,5), of R]
    by (simp add: handleMessages_iter_def Let_def broadcastToRoom_sent R)
qed

lemma member_lookup:
  assumes "wf s" "map_of (rooms s) R = Some room"
  shows "map_of (Clients (heap s room)) k = Some B \<longleftrightarrow> B \<in> set (members s R) \<and> ID B = k"
proof -
  have d: "distinct (map fst (Clients (heap s room)))"
    using assms(1) by (simp add: wf_def members_ok_def)
  have "(k', B) \<in> set (Clients (heap s room)) \<Longrightarrow> k' = ID B" for k'
    using member_goroutine(2) [OF assms(1), of "(k', B)" room] by simp
  then show ?thesis
    using assms(2) by (force simp: map_of_eq_Some_iff [OF d] members_def)
qed

lemma member_ID_nonempty:
  assumes "wf s" "B \<in> set (members s R)"
  shows "ID B \<noteq> []" and "Conn B \<notin> closedConns s"
proof -
  from assms(2) obtain room k where "(k, B) \<in> set (Clients (heap s room))"
    by (rule members_entry)
  then have "(B, room) \<in> set (goroutines s)"
    using member_goroutine(1) [OF assms(1), of "(k, B)" room] by simp
  then show "ID B \<noteq> []" and "Conn B \<notin> closedConns s"
    using assms(1) by (auto simp: wf_def conns_ok_def)
qed

lemma forward_to_member:
  assumes "wf s" "B \<in> set (members s (RoomID A))"
    and "unm payload = Some m"
    and "Type m = ''offer'' \<or> Type m = ''answer'' \<or> Type m = ''ice-candidate''"
    and "To m = ID B"
    and "mar (m\<lparr>From := ID A, RoomID_msg := RoomID A\<rparr>) = Some b"
  shows "handleMessages_iter unm mar s A TextMessage payload = s\<lparr>sent := sent s @ [(Conn B, b)]\<rparr>"
proof -
  from assms(2) obtain room k where room: "map_of (rooms s) (RoomID A) = Some room"
    by (rule members_entry)
  have "map_of (Clients (heap s room)) (To m) = Some B"
    using member_lookup [OF assms(1) room] assms(2,5) by simp
  then have "forwardWrites mar s (m\<lparr>From := ID A, RoomID_msg := RoomID A\<rparr>) = [(Conn B, b)]"
    using room assms(6) member_ID_nonempty(2) [OF assms(1,2)]
    by (simp add: forwardWrites_def)
  then show ?thesis
    using assms(3,4,5) member_ID_nonempty(1) [OF assms(1,2)]
    by (auto simp: handleMessages_iter_def Let_def forwardMessage_sent)
qed

lemma forward_dropped:
  assumes "wf s"
    and "unm payload = Some m"
    and "Type m = ''offer'' \<or> Type m = ''answer'' \<or> Type m = ''ice-candidate''"
    and "To m = [] \<or> To m \<notin> ID ` set (members s (RoomID A))"
  shows "handleMessages_iter unm mar s A TextMessage payload = s"
proof (cases "To m = []")
  case True
  with assms(2,3) show ?thesis
    by (auto simp: handleMessages_iter_def Let_def)
next
  case False
  with assms(4) have no: "To m \<notin> ID ` set (members s (RoomID A))" by simp
  have "forwardWrites mar s (m\<lparr>From := ID A, RoomID_msg := RoomID A\<rparr>) = []"
  proof (cases "map_of (rooms s) (RoomID A)")
    case None
    then show ?thesis by (simp add: forwardWrites_def)
  next
    case (Some room)
    have "map_of (Clients (heap s room)) (To m) = None"
    proof (cases "map_of (Clients (heap s room)) (To m)")
      case (Some B)
      then show ?thesis
        using member_lookup [OF assms(1) \<open>map_of (rooms s) (RoomID A) = Some room\<close>, of "To m" B] no
        by (metis image_eqI)
    qed simp
    with Some show ?thesis by (simp add: forwardWrites_def)
  qed
  with assms(2,3) show ?thesis
    by (auto simp: handleMessages_iter_def Let_def forwardMessage_sent)
qed

lemma chat_excludes_sender:
  assumes "wf s" "A \<in> set (members s R)"
    and "unm payload = Some m" "Type m = ''chat''"
  shows "\<exists>ws. handleMessages_iter unm mar s A TextMessage payload = s\<lparr>sent := sent s @ ws\<rparr> \<and>
           Conn A \<notin> fst ` set ws"
proof (cases "mar (m\<lparr>From := ID A, RoomID_msg := RoomID A\<rparr>)")
  case None
  then have "broadcastWrites mar s (RoomID A) (m\<lparr>From := ID A, RoomID_msg := RoomID A\<rparr>) = []"
    by (simp add: broadcastWrites_def split: option.splits)
  then have "handleMessages_iter unm mar s A TextMessage payload = s\<lparr>sent := sent s @ []\<rparr>"
    using assms(3,4) by (simp add: handleMessages_iter_def Let_def broadcastToRoom_sent)
  then show ?thesis by (intro exI [of _ "[]"]) simp
next
  case (Some b)
  have "distinct (map Conn (members s R))"
    using assms(1) by (rule members_distinct)
  then have "Conn A \<notin> fst ` set (map (\<lambda>B. (Conn B, b)) (filter (\<lambda>B. B \<noteq> A) (members s R)))"
    using assms(2) by (auto simp: distinct_map dest: inj_onD)
  then show ?thesis
    using chat_writes [where unm = unm and mar = mar, OF assms Some] by blast
qed

section \<open>The example room, evaluated\<close>

lemmas ex_defs = ex_room_def ex_client_def join_def step_def handleWebSocket_def Get_def Let_def
  installRoom_def notifyRoom_def broadcastToRoom_def WriteMessage_def init_def ex_marshal_def
  ex_unmarshal_def

lemmas ex_step_defs = ex_client_def join_def step_def handleWebSocket_def Get_def Let_def
  installRoom_def notifyRoom_def broadcastToRoom_def WriteMessage_def init_def ex_marshal_def
  handleMessages_defer_def

lemma ex_room_members: "members ex_room ''R'' = [ex_client ''a'' 0, ex_client ''b'' 1, ex_client ''c'' 2]"
  by (simp add: members_def ex_defs)

lemma ex_room_sent: "sent ex_room = [(0, ''join from=b to= room=R''), (0, ''join from=c to= room=R''), (1, ''join from=c to= room=R'')]"
  by (simp add: ex_defs)

lemma ex_room_rooms: "rooms ex_room = [(''R'', 0)]"
  by (simp add: ex_defs)

lemma ex_room_clients: "Clients (heap ex_room 0) = [(''a'', ex_client ''a'' 0), (''b'', ex_client ''b'' 1), (''c'', ex_client ''c'' 2)]"
  by (simp add: ex_defs)

section \<open>Origin stamping\<close>

text \<open>
  C3. Two inbound text frames whose decoded messages differ at most in the fields
  \<open>from\<close> and \<open>roomId\<close> are handled alike: the state after the iteration, and so every
  frame written, is the same. Every frame the iteration writes is the encoding of the
  decoded message with \<open>from\<close> and \<open>roomId\<close> set to the identifier and the room
  identifier of the connection that sent it.
\<close>

theorem origin_stamped:
  assumes "unm p1 = Some m1" and "unm p2 = Some m2"
    and "m2 = m1\<lparr>From := f, RoomID_msg := r\<rparr>"
  shows "handleMessages_iter unm mar s client TextMessage p1 =
           handleMessages_iter unm mar s client TextMessage p2 \<and>
         (\<exists>ws. handleMessages_iter unm mar s client TextMessage p1 = s\<lparr>sent := sent s @ ws\<rparr> \<and>
            (\<forall>w \<in> set ws. \<exists>m'. mar m' = Some (snd w) \<and> From m' = ID client \<and>
               RoomID_msg m' = RoomID client \<and>
               m' = m1\<lparr>From := ID client, RoomID_msg := RoomID client\<rparr>))"
proof
  show "handleMessages_iter unm mar s client TextMessage p1 =
      handleMessages_iter unm mar s client TextMessage p2"
    using assms by (simp add: handleMessages_iter_def)
next
  let ?m = "m1\<lparr>From := ID client, RoomID_msg := RoomID client\<rparr>"
  have b: "\<forall>w \<in> set (broadcastWrites mar s R ?m). mar ?m = Some (snd w)" for R
    by (auto simp: broadcastWrites_def split: option.splits)
  have f: "\<forall>w \<in> set (forwardWrites mar s ?m). mar ?m = Some (snd w)"
    by (auto simp: forwardWrites_def split: option.splits)
  have e: "s = s\<lparr>sent := sent s @ []\<rparr>" by simp
  have "handleMessages_iter unm mar s client TextMessage p1 = s
    \<or> handleMessages_iter unm mar s client TextMessage p1 =
         s\<lparr>sent := sent s @ forwardWrites mar s ?m\<rparr>
    \<or> handleMessages_iter unm mar s client TextMessage p1 =
         s\<lparr>sent := sent s @ broadcastWrites mar s (RoomID client) ?m\<rparr>"
    using assms(1)
    by (simp add: handleMessages_iter_def Let_def forwardMessage_sent broadcastToRoom_sent)
  then consider "handleMessages_iter unm mar s client TextMessage p1 = s"
    | "handleMessages_iter unm mar s client TextMessage p1 =
         s\<lparr>sent := sent s @ forwardWrites mar s ?m\<rparr>"
    | "handleMessages_iter unm mar s client TextMessage p1 =
         s\<lparr>sent := sent s @ broadcastWrites mar s (RoomID client) ?m\<rparr>"
    by blast
  then show "\<exists>ws. handleMessages_iter unm mar s client TextMessage p1 = s\<lparr>sent := sent s @ ws\<rparr> \<and>
            (\<forall>w \<in> set ws. \<exists>m'. mar m' = Some (snd w) \<and> From m' = ID client \<and>
               RoomID_msg m' = RoomID client \<and> m' = ?m)"
  proof cases
    case 1
    then show ?thesis using e by (intro exI[of _ "[]"]) simp
  next
    case 2
    then show ?thesis using f by (intro exI[of _ "forwardWrites mar s ?m"]) simp
  next
    case 3
    then show ?thesis using b by (intro exI[of _ "broadcastWrites mar s (RoomID client) ?m"]) simp
  qed
qed

theorem origin_stamped_witness:
  "handleMessages_iter ex_unmarshal ex_marshal ex_room (ex_client ''a'' 0) TextMessage ''chat'' =
     handleMessages_iter ex_unmarshal ex_marshal ex_room (ex_client ''a'' 0) TextMessage ''chat.'' \<and>
   (\<exists>ws. handleMessages_iter ex_unmarshal ex_marshal ex_room (ex_client ''a'' 0) TextMessage ''chat'' =
       ex_room\<lparr>sent := sent ex_room @ ws\<rparr> \<and>
      (\<forall>w \<in> set ws. \<exists>m'. ex_marshal m' = Some (snd w) \<and> From m' = ID (ex_client ''a'' 0) \<and>
         RoomID_msg m' = RoomID (ex_client ''a'' 0) \<and>
         m' = \<lparr>Type = ''chat'', From = ''mallory'', To = [], RoomID_msg = ''elsewhere'',
               Username_msg = [], SDP = [], Candidate = []\<rparr>
              \<lparr>From := ID (ex_client ''a'' 0), RoomID_msg := RoomID (ex_client ''a'' 0)\<rparr>))"
proof -
  let ?m1 = "\<lparr>Type = ''chat'', From = ''mallory'', To = [], RoomID_msg = ''elsewhere'',
              Username_msg = [], SDP = [], Candidate = []\<rparr>"
  let ?m2 = "\<lparr>Type = ''chat'', From = [], To = [], RoomID_msg = [],
              Username_msg = [], SDP = [], Candidate = []\<rparr>"
  have 1: "ex_unmarshal ''chat'' = Some ?m1" and 2: "ex_unmarshal ''chat.'' = Some ?m2"
    and 3: "?m2 = ?m1\<lparr>From := [], RoomID_msg := []\<rparr>"
    by (simp_all add: ex_unmarshal_def)
  show ?thesis
    by (rule origin_stamped [where unm = ex_unmarshal and mar = ex_marshal and s = ex_room
      and client = "ex_client ''a'' 0" and ?p1.0 = "''chat''" and ?p2.0 = "''chat.''"
      and ?m1.0 = ?m1 and ?m2.0 = ?m2 and f = "[]" and r = "[]", OF 1 2 3])
qed

section \<open>Chat broadcast\<close>

text \<open>
  Chat among the members of a registered room. In every state the server can reach, when
  a member \<open>A\<close> of the room that the registry holds under \<open>R\<close> sends a frame that
  decodes to a \<open>chat\<close> message, the encoding \<open>b\<close> of the stamped message is written
  once to the connection of every member of that room other than \<open>A\<close>, to no other
  connection, and not to the connection of \<open>A\<close>; nothing else in the state changes.
\<close>

theorem chat_reaches_other_members:
  assumes "s = run unm mar init evs"
    and "A \<in> set (members s R)"
    and "unm payload = Some m" and "Type m = ''chat''"
    and "mar (m\<lparr>From := ID A, RoomID_msg := RoomID A\<rparr>) = Some b"
  shows "\<exists>ws. handleMessages_iter unm mar s A TextMessage payload = s\<lparr>sent := sent s @ ws\<rparr> \<and>
           distinct ws \<and>
           set ws = (\<lambda>B. (Conn B, b)) ` (set (members s R) - {A}) \<and>
           Conn A \<notin> fst ` set ws"
proof -
  have wf: "wf s"
    by (simp add: assms(1) wf_reachable)
  let ?ws = "map (\<lambda>B. (Conn B, b)) (filter (\<lambda>B. B \<noteq> A) (members s R))"
  have d: "distinct (map Conn (members s R))"
    using wf by (rule members_distinct)
  then have "distinct (map fst ?ws)"
    by (simp add: comp_def distinct_map_filter)
  then have 1: "distinct ?ws"
    using distinct_map [of fst ?ws] by blast
  have 2: "set ?ws = (\<lambda>B. (Conn B, b)) ` (set (members s R) - {A})"
    by auto
  have 3: "Conn A \<notin> fst ` set ?ws"
    using d assms(2) by (auto simp: distinct_map dest: inj_onD)
  show ?thesis
    using chat_writes [where unm = unm and mar = mar, OF wf assms(2-5)] 1 2 3 by blast
qed

theorem chat_reaches_other_members_witness:
  "\<exists>ws. handleMessages_iter ex_unmarshal ex_marshal ex_room (ex_client ''a'' 0) TextMessage ''chat'' =
           ex_room\<lparr>sent := sent ex_room @ ws\<rparr> \<and>
         distinct ws \<and>
         set ws = {(1, ''chat from=a to= room=R''), (2, ''chat from=a to= room=R'')} \<and>
         0 \<notin> fst ` set ws"
  using chat_reaches_other_members [of ex_room ex_unmarshal ex_marshal
      "[Ws (join ''R'' ''a''), Ws (join ''R'' ''b''), Ws (join ''R'' ''c'')]"
      "ex_client ''a'' 0" "''R''" "''chat''" _ "''chat from=a to= room=R''"]
  by (simp add: ex_room_members) (simp add: ex_room_def ex_unmarshal_def ex_marshal_def ex_client_def)

section \<open>Unicast\<close>

text \<open>
  Unicast through the registry. In every state the server can reach, let the connection
  of \<open>A\<close> send an \<open>offer\<close>, \<open>answer\<close> or \<open>ice-candidate\<close>. If a member \<open>B\<close> of the
  room that the registry holds under the sender's room identifier has the identifier
  given in \<open>to\<close>, the encoded stamped message is written to the connection of \<open>B\<close>
  and nothing else changes. If \<open>to\<close> is empty or is the identifier of no member of that
  room, the state is left as it was.
\<close>

theorem unicast_delivery:
  assumes "s = run unm mar init evs"
    and "unm payload = Some m"
    and "Type m = ''offer'' \<or> Type m = ''answer'' \<or> Type m = ''ice-candidate''"
  shows "(B \<in> set (members s (RoomID A)) \<and> To m = ID B \<and>
            mar (m\<lparr>From := ID A, RoomID_msg := RoomID A\<rparr>) = Some b \<longrightarrow>
          handleMessages_iter unm mar s A TextMessage payload =
            s\<lparr>sent := sent s @ [(Conn B, b)]\<rparr>) \<and>
         (To m = [] \<or> To m \<notin> ID ` set (members s (RoomID A)) \<longrightarrow>
          handleMessages_iter unm mar s A TextMessage payload = s)"
proof -
  have wf: "wf s"
    by (simp add: assms(1) wf_reachable)
  show ?thesis
    using forward_to_member [where unm = unm and mar = mar, OF wf _ assms(2,3)]
      forward_dropped [where unm = unm and mar = mar, OF wf assms(2,3)]
    by blast
qed

theorem unicast_delivery_witness:
  "handleMessages_iter ex_unmarshal ex_marshal ex_room (ex_client ''a'' 0) TextMessage ''offer:b'' =
     ex_room\<lparr>sent := sent ex_room @ [(1, ''offer from=a to=b room=R'')]\<rparr> \<and>
   handleMessages_iter ex_unmarshal ex_marshal ex_room (ex_client ''a'' 0) TextMessage ''offer:ghost'' =
     ex_room"
proof -
  note evs = ex_room_def
  have 1: "handleMessages_iter ex_unmarshal ex_marshal ex_room (ex_client ''a'' 0) TextMessage ''offer:b'' =
     ex_room\<lparr>sent := sent ex_room @ [(1, ''offer from=a to=b room=R'')]\<rparr>"
    using unicast_delivery [where unm = ex_unmarshal and mar = ex_marshal and s = ex_room
      and A = "ex_client ''a'' 0" and B = "ex_client ''b'' 1" and payload = "''offer:b''"
      and b = "''offer from=a to=b room=R''", OF evs]
    by (simp add: ex_unmarshal_def) (simp add: ex_client_def ex_room_members ex_marshal_def)
  have 2: "handleMessages_iter ex_unmarshal ex_marshal ex_room (ex_client ''a'' 0) TextMessage ''offer:ghost'' =
     ex_room"
    using unicast_delivery [where unm = ex_unmarshal and mar = ex_marshal and s = ex_room
      and A = "ex_client ''a'' 0" and payload = "''offer:ghost''", OF evs]
    by (simp add: ex_unmarshal_def) (simp add: ex_client_def ex_room_members)
  from 1 2 show ?thesis by simp
qed

text \<open>
  Unicast to oneself. In every state the server can reach, let \<open>A\<close> be a member of the
  room that the registry holds under \<open>R\<close>. An \<open>offer\<close>, \<open>answer\<close> or
  \<open>ice-candidate\<close> that \<open>A\<close> sends with \<open>to\<close> equal to its own identifier is written,
  encoded, to the connection of \<open>A\<close> itself; of a \<open>chat\<close> that \<open>A\<close> sends, no frame
  is written to the connection of \<open>A\<close>.
\<close>

theorem unicast_to_self:
  assumes "s = run unm mar init evs"
    and "A \<in> set (members s R)"
  shows "(unm payload = Some m \<and>
          (Type m = ''offer'' \<or> Type m = ''answer'' \<or> Type m = ''ice-candidate'') \<and>
          To m = ID A \<and> mar (m\<lparr>From := ID A, RoomID_msg := RoomID A\<rparr>) = Some b \<longrightarrow>
          handleMessages_iter unm mar s A TextMessage payload =
            s\<lparr>sent := sent s @ [(Conn A, b)]\<rparr>) \<and>
         (unm payload' = Some m' \<and> Type m' = ''chat'' \<longrightarrow>
          (\<exists>ws. handleMessages_iter unm mar s A TextMessage payload' = s\<lparr>sent := sent s @ ws\<rparr> \<and>
             Conn A \<notin> fst ` set ws))"
proof -
  have wf: "wf s"
    by (simp add: assms(1) wf_reachable)
  have "A \<in> set (members s (RoomID A))"
    using member_RoomID [OF wf assms(2)] assms(2) by simp
  then show ?thesis
    using forward_to_member [where unm = unm and mar = mar and payload = payload and m = m, OF wf]
      chat_excludes_sender [where unm = unm and mar = mar and payload = payload' and m = m',
        OF wf assms(2)]
    by blast
qed

theorem unicast_to_self_witness:
  "handleMessages_iter ex_unmarshal ex_marshal ex_room (ex_client ''a'' 0) TextMessage ''offer:a'' =
     ex_room\<lparr>sent := sent ex_room @ [(0, ''offer from=a to=a room=R'')]\<rparr> \<and>
   (\<exists>ws. handleMessages_iter ex_unmarshal ex_marshal ex_room (ex_client ''a'' 0) TextMessage ''chat'' =
      ex_room\<lparr>sent := sent ex_room @ ws\<rparr> \<and> 0 \<notin> fst ` set ws)"
  using unicast_to_self [where unm = ex_unmarshal and mar = ex_marshal and s = ex_room
      and A = "ex_client ''a'' 0" and R = "''R''" and payload = "''offer:a''"
      and m = "\<lparr>Type = ''offer'', From = ''mallory'', To = ''a'', RoomID_msg = ''elsewhere'',
                Username_msg = [], SDP = ''v=0'', Candidate = []\<rparr>"
      and b = "''offer from=a to=a room=R''" and payload' = "''chat''"
      and m' = "\<lparr>Type = ''chat'', From = ''mallory'', To = [], RoomID_msg = ''elsewhere'',
                Username_msg = [], SDP = [], Candidate = []\<rparr>", OF ex_room_def]
  by (simp add: ex_unmarshal_def ex_room_members) (simp add: ex_client_def ex_marshal_def)

section \<open>Joining under an identifier already in the room\<close>

text \<open>
  C9. In every state the server can reach, let a request join the room registered under
  \<open>roomID\<close> with a client identifier under which that room's mapping holds the
  connection \<open>old\<close>. The request is upgraded; afterwards the mapping holds the new
  connection under that key and is unchanged at every other key, the registry is
  unchanged, the new connection is not the old one, and none of the frames written
  during the join goes to the old connection.
\<close>

theorem join_replaces_entry:
  assumes "s = run unm mar init evs"
    and "map_of (rooms s) roomID = Some room"
    and "map_of (Clients (heap s room)) clientID = Some old"
    and "Get (Query r) ''roomId'' = roomID" and "Get (Query r) ''clientId'' = clientID"
    and "Get (Query r) ''username'' = username" and "username \<noteq> []"
    and "Handshake r"
    and "new = \<lparr>Conn = nextConn s, ID = clientID, RoomID = roomID, Username = username\<rparr>"
    and "s' = fst (handleWebSocket mar s r)"
  shows "snd (handleWebSocket mar s r) = Upgraded \<and>
         rooms s' = rooms s \<and>
         map_of (Clients (heap s' room)) = (map_of (Clients (heap s room)))(clientID \<mapsto> new) \<and>
         Conn new \<noteq> Conn old \<and>
         (\<exists>ws. sent s' = sent s @ ws \<and> Conn old \<notin> fst ` set ws)"
proof -
  have wf: "wf s"
    by (simp add: assms(1) wf_reachable)
  have old: "(clientID, old) \<in> set (Clients (heap s room))"
    using assms(3) by (rule map_of_SomeD)
  have g: "(old, room) \<in> set (goroutines s)" and k: "clientID = ID old"
    using member_goroutine [OF wf old] by simp_all
  have open_old: "Conn old < nextConn s" and ne: "clientID \<noteq> []"
    using wf g k by (auto simp: wf_def conns_ok_def)
  have R: "roomID \<noteq> []"
    using wf assms(2) by (auto simp: wf_def registry_ok_def)
  let ?s2 = "addClient s room new"
  let ?msg = "\<lparr>Type = ''join'', From = clientID, To = [], RoomID_msg = roomID,
               Username_msg = username, SDP = [], Candidate = []\<rparr>"
  let ?ws = "broadcastWrites mar ?s2 roomID ?msg"
  have h: "handleWebSocket mar s r = (?s2\<lparr>sent := sent s @ ?ws\<rparr>, Upgraded)"
    using handleWebSocket_join(1) [where s = s and r = r and mar = mar] assms(2,4-9) R ne
    by simp
  have d: "distinct (map fst (Clients (heap s room)))"
    using wf by (simp add: wf_def members_ok_def)
  have "Conn old \<notin> fst ` set ?ws"
  proof
    assume "Conn old \<in> fst ` set ?ws"
    then obtain e where e: "e \<in> set (AList.update clientID new (Clients (heap s room)))"
      and c1: "ID (snd e) \<noteq> clientID" and c2: "Conn (snd e) = Conn old"
      using assms(2,9)
      by (fastforce simp: broadcastWrites_def addClient_def split: option.splits)
    have "e \<noteq> (clientID, new)"
      using c1 assms(9) by auto
    with update_entry [OF d e] have e': "e \<in> set (Clients (heap s room))" by simp
    have "e = (clientID, old)"
      using member_conn_inj(1) [OF wf e' old] c2 by simp
    with k c1 show False by simp
  qed
  moreover have "Conn new \<noteq> Conn old"
    using open_old assms(9) by simp
  ultimately show ?thesis
    using assms(9,10) by (simp add: h addClient_def update_conv')
qed

theorem join_replaces_entry_witness:
  "snd (handleWebSocket ex_marshal ex_room (join ''R'' ''a'')) = Upgraded \<and>
   rooms (fst (handleWebSocket ex_marshal ex_room (join ''R'' ''a''))) = rooms ex_room \<and>
   map_of (Clients (heap (fst (handleWebSocket ex_marshal ex_room (join ''R'' ''a''))) 0)) =
     (map_of (Clients (heap ex_room 0)))(''a'' \<mapsto> ex_client ''a'' 3) \<and>
   Conn (ex_client ''a'' 3) \<noteq> Conn (ex_client ''a'' 0) \<and>
   (\<exists>ws. sent (fst (handleWebSocket ex_marshal ex_room (join ''R'' ''a''))) = sent ex_room @ ws \<and>
      Conn (ex_client ''a'' 0) \<notin> fst ` set ws)"
proof -
  have n: "nextConn ex_room = 3"
    by (simp add: ex_defs)
  show ?thesis
    by (rule join_replaces_entry [where unm = ex_unmarshal and roomID = "''R''" 
        and clientID = "''a''" and username = "''user-a''", OF ex_room_def])
      (simp_all add: ex_room_rooms ex_room_clients join_def Get_def ex_client_def n)
qed

section \<open>Rooms without members\<close>


















text \<open>So does a join whose handshake fails on an identifier that was not registered.\<close>

lemma failed_handshake_installs_empty_room:
  "emptyRooms (run ex_unmarshal ex_marshal init [Ws ((join ''R'' ''a'')\<lparr>Handshake := False\<rparr>)])
     = [''R'']"
  by (simp add: emptyRooms_def step_def handleWebSocket_def join_def Get_def installRoom_def
      init_def Let_def)

section \<open>Teardown\<close>

text \<open>When the \<^verbatim>\<open>Room\<close> object of the terminating connection is the one the registry
  holds under the connection's room identifier, the deferred function removes the entry
  stored under the client's identifier and then either deletes the room (the mapping
  became empty, nothing is written) or writes the \<open>leave\<close> to every remaining member;
  the closed connection is never among the recipients.\<close>

lemma teardown_of_registered_room:
  assumes "s = run unm mar init evs"
    and "(client, room) \<in> set (goroutines s)"
    and "map_of (rooms s) (RoomID client) = Some room"
    and "s' = handleMessages_defer mar s client room"
    and "mar \<lparr>Type = ''leave'', From = ID client, To = [], RoomID_msg = RoomID client,
               Username_msg = Username client, SDP = [], Candidate = []\<rparr> = Some b"
  shows "Clients (heap s' room) = AList.delete (ID client) (Clients (heap s room))"
    and "Clients (heap s' room) = [] \<Longrightarrow>
           rooms s' = AList.delete (RoomID client) (rooms s) \<and> sent s' = sent s"
    and "Clients (heap s' room) \<noteq> [] \<Longrightarrow>
           rooms s' = rooms s \<and>
           sent s' = sent s @ map (\<lambda>B. (Conn B, b)) (members s' (RoomID client))"
    and "Conn client \<notin> Conn ` set (members s' (RoomID client))"
proof -
  have wf: "wf s"
    by (simp add: assms(1) wf_reachable)
  let ?s2 = "dropClient s client room"
  have wf2: "wf ?s2"
    using wf assms(2) by (rule wf_dropClient)
  have c: "Clients (heap ?s2 room) = AList.delete (ID client) (Clients (heap s room))"
    and r: "rooms ?s2 = rooms s" and closed: "Conn client \<in> closedConns ?s2"
    by (simp_all add: dropClient_def)
  have m2: "members ?s2 (RoomID client) = map snd (AList.delete (ID client) (Clients (heap s room)))"
    by (simp add: members_def r assms(3) c)
  have keep: "ID B \<noteq> ID client" if "B \<in> set (members ?s2 (RoomID client))" for B
  proof -
    from that obtain k where k: "(k, B) \<in> set (Clients (heap s room))" "k \<noteq> ID client"
      unfolding m2 by (auto simp: delete_entry)
    then show ?thesis
      using member_goroutine(2) [OF wf k(1)] by simp
  qed
  then have f: "filter (\<lambda>B. ID B \<noteq> ID client) (members ?s2 (RoomID client)) =
      members ?s2 (RoomID client)"
    by (simp add: filter_id_conv)
  have w: "broadcastWrites mar ?s2 (RoomID client)
      \<lparr>Type = ''leave'', From = ID client, To = [], RoomID_msg = RoomID client,
       Username_msg = Username client, SDP = [], Candidate = []\<rparr> =
      map (\<lambda>B. (Conn B, b)) (members ?s2 (RoomID client))"
    using broadcastWrites_wf [where mar = mar, OF wf2 assms(5), of "RoomID client"] f by simp
  have E: "s' = ?s2\<lparr>rooms := AList.delete (RoomID client) (rooms s)\<rparr>"
    if "AList.delete (ID client) (Clients (heap s room)) = []"
    using that by (simp add: assms(4) handleMessages_defer_eq Let_def c)
  have NE: "s' = ?s2\<lparr>sent := sent s @ map (\<lambda>B. (Conn B, b)) (members ?s2 (RoomID client))\<rparr>"
    if "AList.delete (ID client) (Clients (heap s room)) \<noteq> []"
    using that by (simp add: assms(4) handleMessages_defer_eq Let_def c w)
  show 1: "Clients (heap s' room) = AList.delete (ID client) (Clients (heap s room))"
    using E NE c by (cases "AList.delete (ID client) (Clients (heap s room)) = []") simp_all
  show "Clients (heap s' room) = [] \<Longrightarrow>
      rooms s' = AList.delete (RoomID client) (rooms s) \<and> sent s' = sent s"
    unfolding 1 using E by (simp add: dropClient_def)
  have ne: "members s' (RoomID client) = members ?s2 (RoomID client)"
    if "AList.delete (ID client) (Clients (heap s room)) \<noteq> []"
    using NE [OF that] by (simp add: members_sent)
  show "Clients (heap s' room) \<noteq> [] \<Longrightarrow>
      rooms s' = rooms s \<and> sent s' = sent s @ map (\<lambda>B. (Conn B, b)) (members s' (RoomID client))"
    unfolding 1 using NE ne r by simp
  have "members s' (RoomID client) = [] \<or> members s' (RoomID client) = members ?s2 (RoomID client)"
  proof (cases "AList.delete (ID client) (Clients (heap s room)) = []")
    case True
    then show ?thesis
      using E by (simp add: members_def delete_conv')
  next
    case False
    then show ?thesis using ne by simp
  qed
  moreover have "Conn client \<notin> Conn ` set (members ?s2 (RoomID client))"
    using member_ID_nonempty(2) [OF wf2, of _ "RoomID client"] closed by (metis imageE)
  ultimately show "Conn client \<notin> Conn ` set (members s' (RoomID client))"
    by auto
qed

text \<open>
  C6. The claim is that on every termination the connection is first removed from its
  room's mapping, that it never receives its own \<open>leave\<close>, and that exactly one of two
  things happens: the room is deleted from the registry when its mapping became empty,
  or a \<open>leave\<close> is broadcast to the remaining members when it did not. The code
  decides on the \<^verbatim>\<open>Room\<close> object that the goroutine holds, but deletes and notifies
  through the room identifier. In the run \<open>ex_stale\<close> the goroutine of connection 1
  holds the object at address 0 (emptied and unregistered by the teardown of connection
  0, which removed the entry of connection 1 stored under the same identifier), while
  the registry holds under \<open>R\<close> the object at address 1 with the members \<open>y\<close> and
  \<open>z\<close>. The teardown of connection 1 deletes that room of two members from the
  registry and writes nothing; the teardown of connection 2 (\<open>y\<close>) then leaves \<open>z\<close>
  in the mapping, deletes nothing and writes no \<open>leave\<close> to \<open>z\<close>.
\<close>

theorem teardown_of_stale_connection:
  "(let s5 = run ex_unmarshal ex_marshal init ex_stale;
        s6 = step ex_unmarshal ex_marshal s5 (Read 1 ReadError);
        s7 = step ex_unmarshal ex_marshal s6 (Read 2 ReadError)
    in rooms s5 = [(''R'', 1)] \<and>
       Clients (heap s5 1) = [(''y'', ex_client ''y'' 2), (''z'', ex_client ''z'' 3)] \<and>
       goroutines s5 = [(ex_client ''x'' 1, 0), (ex_client ''y'' 2, 1), (ex_client ''z'' 3, 1)] \<and>
       rooms s6 = [] \<and>
       Clients (heap s6 1) = [(''y'', ex_client ''y'' 2), (''z'', ex_client ''z'' 3)] \<and>
       sent s6 = sent s5 \<and>
       rooms s7 = [] \<and>
       Clients (heap s7 1) = [(''z'', ex_client ''z'' 3)] \<and>
       goroutines s7 = [(ex_client ''z'' 3, 1)] \<and>
       sent s7 = sent s5)"
  by (simp add: ex_stale_def ex_step_defs)

section \<open>Rooms with members outside the registry\<close>

text \<open>After the run \<open>ex_stale\<close> and the loss of connection 1 the registry is empty,
  while the \<^verbatim>\<open>Room\<close> object at address 1 still holds \<open>y\<close> and \<open>z\<close>, whose goroutines run
  on open connections. Before that loss, the goroutine of connection 1 (\<open>x\<close>) runs on
  the object at address 0, which holds nobody.\<close>

lemma ex_orphan_state:
  "rooms ex_orphan = []"
  "Clients (heap ex_orphan (Suc 0)) = [(''y'', ex_client ''y'' 2), (''z'', ex_client ''z'' 3)]"
  "goroutines ex_orphan = [(ex_client ''y'' 2, 1), (ex_client ''z'' 3, 1)]"
  "closedConns ex_orphan = {0, 1}"
  by (simp_all add: ex_orphan_def ex_stale_def ex_step_defs insert_commute)

lemma ex_stale_state:
  "rooms (run ex_unmarshal ex_marshal init ex_stale) = [(''R'', 1)]"
  "Clients (heap (run ex_unmarshal ex_marshal init ex_stale) 0) = []"
  "Clients (heap (run ex_unmarshal ex_marshal init ex_stale) (Suc 0)) =
     [(''y'', ex_client ''y'' 2), (''z'', ex_client ''z'' 3)]"
  "goroutines (run ex_unmarshal ex_marshal init ex_stale) =
     [(ex_client ''x'' 1, 0), (ex_client ''y'' 2, 1), (ex_client ''z'' 3, 1)]"
  "closedConns (run ex_unmarshal ex_marshal init ex_stale) = {0}"
  by (simp_all add: ex_stale_def ex_step_defs)

text \<open>
  C4. The claim is that a \<open>chat\<close> sent by a member of a room is delivered to exactly
  the other members of the room. \<open>broadcastToRoom\<close> finds the room through the
  registry: in the state \<open>ex_orphan\<close>, \<open>y\<close> (connection 2) and \<open>z\<close> (connection 3) are
  the entries of one \<^verbatim>\<open>Room\<close> mapping and both connections are open, the registry holds
  nothing under \<open>R\<close>, and the \<open>chat\<close> frame of \<open>y\<close> leaves the state as it was: \<open>z\<close>
  receives nothing.
\<close>

theorem chat_lost_in_unregistered_room:
  "rooms ex_orphan = [] \<and>
   Clients (heap ex_orphan 1) = [(''y'', ex_client ''y'' 2), (''z'', ex_client ''z'' 3)] \<and>
   goroutines ex_orphan = [(ex_client ''y'' 2, 1), (ex_client ''z'' 3, 1)] \<and>
   closedConns ex_orphan = {0, 1} \<and>
   step ex_unmarshal ex_marshal ex_orphan (Read 2 (Frame TextMessage ''chat'')) = ex_orphan"
  by (simp add: ex_orphan_state step_def handleMessages_iter_def broadcastToRoom_def
      ex_unmarshal_def ex_client_def Let_def)

text \<open>
  C5. The claim is that an \<open>offer\<close>, \<open>answer\<close> or \<open>ice-candidate\<close> reaches its target
  exactly when the target is a member of the sender's room. \<open>forwardMessage\<close> finds
  the room through the registry: in the state \<open>ex_orphan\<close> the offer of \<open>y\<close> to \<open>z\<close>, an
  entry of the same \<^verbatim>\<open>Room\<close> mapping, leaves the state as it was; and after the run
  \<open>ex_stale\<close> the offer of \<open>x\<close> (connection 1), whose \<^verbatim>\<open>Room\<close> object holds nobody, is
  written to the connection of \<open>y\<close>, an entry of another \<^verbatim>\<open>Room\<close> object.
\<close>

theorem offer_lost_or_misdelivered:
  "Clients (heap ex_orphan 1) = [(''y'', ex_client ''y'' 2), (''z'', ex_client ''z'' 3)] \<and>
   goroutines ex_orphan = [(ex_client ''y'' 2, 1), (ex_client ''z'' 3, 1)] \<and>
   closedConns ex_orphan = {0, 1} \<and>
   step ex_unmarshal ex_marshal ex_orphan (Read 2 (Frame TextMessage ''offer:z'')) = ex_orphan \<and>
   (let s5 = run ex_unmarshal ex_marshal init ex_stale
    in goroutines s5 = [(ex_client ''x'' 1, 0), (ex_client ''y'' 2, 1), (ex_client ''z'' 3, 1)] \<and>
       Clients (heap s5 0) = [] \<and>
       Clients (heap s5 1) = [(''y'', ex_client ''y'' 2), (''z'', ex_client ''z'' 3)] \<and>
       sent (step ex_unmarshal ex_marshal s5 (Read 1 (Frame TextMessage ''offer:y''))) =
         sent s5 @ [(2, ''offer from=x to=y room=R'')])"
  by (simp add: ex_orphan_state ex_stale_state step_def handleMessages_iter_def forwardMessage_def
      WriteMessage_def ex_unmarshal_def ex_marshal_def ex_client_def Let_def)

text \<open>
  C10. The claim is that an \<open>offer\<close>, \<open>answer\<close> or \<open>ice-candidate\<close> that a member of a
  room addresses to its own identifier is delivered back to it. In the state
  \<open>ex_orphan\<close>, \<open>y\<close> is an entry of a \<^verbatim>\<open>Room\<close> mapping on an open connection, and its
  offer to itself leaves the state as it was: \<open>forwardMessage\<close> returns at the registry
  lookup.
\<close>

theorem offer_to_self_lost_in_unregistered_room:
  "Clients (heap ex_orphan 1) = [(''y'', ex_client ''y'' 2), (''z'', ex_client ''z'' 3)] \<and>
   goroutines ex_orphan = [(ex_client ''y'' 2, 1), (ex_client ''z'' 3, 1)] \<and>
   closedConns ex_orphan = {0, 1} \<and>
   step ex_unmarshal ex_marshal ex_orphan (Read 2 (Frame TextMessage ''offer:y'')) = ex_orphan"
  by (simp add: ex_orphan_state step_def handleMessages_iter_def forwardMessage_def
      ex_unmarshal_def ex_client_def Let_def)

end
